theory Spec2Isabelle
  imports Main "HOL-Library.Word"
begin

unbundle bit_operations_syntax

section \<open>What the sketches leave to the Teensy toolchain\<close>

text \<open>
  The sketches are written against the Teensy core: the key-code macros (\<open>KEY_1\<close>,
  \<open>KEY_LEFT\<close>, \<open>MODIFIERKEY_SHIFT\<close>, ...) come from its header and have no definition in
  the repository. They are a parameter of the model: \<open>keycode P ''KEY_LEFT''\<close> is the number
  the header gives the name.

  The function \<open>debounce\<close> can reach its closing brace without a \<open>return\<close>. The value
  its caller then reads is not chosen by the source; it is the second parameter,
  \<open>noreturn P keyId table\<close>, a function of everything \<open>debounce\<close> has looked at. Every
  theorem below holds for every platform unless it names one.
\<close>

type_synonym debounce_table = "(8 word \<times> 8 word) list"

record platform =
  keycode :: "string \<Rightarrow> 16 word"
  noreturn :: "8 word \<Rightarrow> debounce_table \<Rightarrow> bool"

section \<open>Globals of the sketches\<close>

text \<open>
  \<open>debounceKeys\<close> is \<open>int8_t[6][2]\<close>: a list of (keyId, countdown) pairs. \<open>usbKeys\<close> is
  \<open>int8_t[6]\<close>, \<open>keysUsed\<close> is \<open>uint8_t\<close>, \<open>modifiers\<close> is an \<open>int\<close> (16 bits on the
  Teensy++ 2.0). Signed bytes are kept as \<open>8 word\<close> and read with \<open>sint\<close> where the source
  compares them with an unsigned byte. \<open>rAlt\<close>, \<open>lAlt\<close>, \<open>altLockActive\<close> and
  \<open>previousMillis\<close> exist in the VICE sketch only; the other sketches never touch them.
  The globals \<open>ctrl\<close>, \<open>lbrace\<close> and \<open>rbrace\<close> are declared and never used; they are left out.

  The \<open>Keyboard\<close> object of the Teensy core is modelled by what the sketch hands it:
  \<open>key_regs\<close> are the six values last given to \<open>set_key1\<close> ... \<open>set_key6\<close>,
  \<open>modifier_reg\<close> the value last given to \<open>set_modifier\<close>, and \<open>sent\<close> the reports
  transmitted by \<open>send_now\<close>, oldest first. \<open>tones\<close> are the calls of \<open>tone\<close> as
  (frequency, duration) pairs. The \<open>Serial\<close> diagnostics are not modelled.
\<close>

type_synonym report = "16 word \<times> 16 word list"

record state =
  debounceKeys :: debounce_table
  usbKeys :: "8 word list"
  keysUsed :: "8 word"
  lShift :: bool
  rShift :: bool
  lArrow :: bool
  rArrow :: bool
  rAlt :: bool
  lAlt :: bool
  modifiers :: "16 word"
  keyStateChange :: bool
  previousMillis :: "32 word"
  altLockActive :: bool
  key_regs :: "16 word list"
  modifier_reg :: "16 word"
  sent :: "report list"
  tones :: "(nat \<times> nat) list"

definition DEBOUNCE_DELAY :: "8 word" where
  "DEBOUNCE_DELAY = 2"

definition initial :: state where
  "initial = \<lparr> debounceKeys = [(0, 0), (0, 0), (0, 0), (0, 0), (0, 0), (0, 0)],
      usbKeys = [- 1, - 1, - 1, - 1, - 1, - 1],
      keysUsed = 0,
      lShift = False, rShift = False, lArrow = False, rArrow = False,
      rAlt = False, lAlt = False,
      modifiers = 0,
      keyStateChange = False,
      previousMillis = 0,
      altLockActive = False,
      key_regs = [0, 0, 0, 0, 0, 0],
      modifier_reg = 0,
      sent = [],
      tones = [] \<rparr>"

section \<open>debounce\<close>

text \<open>
  The first loop of \<open>debounce\<close>: the first entry whose keyId equals the argument decides.
  The entry is an \<open>int8_t\<close> and the argument a \<open>uint8_t\<close>; both are promoted to \<open>int\<close>
  before \<open>==\<close>, hence \<open>sint key = uint keyId\<close>. The branches are in the order of the
  source: \<open>!= 1\<close> first, then \<open>== 1\<close>, then \<open>== 0\<close>. The decrement of an \<open>int8_t\<close> wraps.
  \<open>None\<close>: the loop ended without a \<open>return\<close>.
\<close>

fun debounce_tracked :: "8 word \<Rightarrow> debounce_table \<Rightarrow> (bool \<times> debounce_table) option" where
  "debounce_tracked keyId [] = None"
| "debounce_tracked keyId ((key, ticks) # es) =
     (if sint key = uint keyId \<and> ticks \<noteq> 1 then Some (True, (key, ticks - 1) # es)
      else if sint key = uint keyId \<and> ticks = 1 then Some (False, (key, 0) # es)
      else if sint key = uint keyId \<and> ticks = 0 then Some (True, (key, DEBOUNCE_DELAY) # es)
      else (case debounce_tracked keyId es of
              None \<Rightarrow> None
            | Some (r, es') \<Rightarrow> Some (r, (key, ticks) # es')))"

text \<open>
  The second loop: the first entry whose countdown is 0 is given to the key.
  \<open>None\<close>: no entry has countdown 0, and the loop ended without a \<open>return\<close>.
\<close>

fun debounce_new :: "8 word \<Rightarrow> debounce_table \<Rightarrow> debounce_table option" where
  "debounce_new keyId [] = None"
| "debounce_new keyId ((key, ticks) # es) =
     (if ticks = 0 then Some ((keyId, DEBOUNCE_DELAY) # es)
      else (case debounce_new keyId es of
              None \<Rightarrow> None
            | Some es' \<Rightarrow> Some ((key, ticks) # es')))"

text \<open>
  \<open>debounce\<close> on the table: the returned value is \<open>Some True\<close> (suppress), \<open>Some False\<close>
  (admit), or \<open>None\<close> when control reaches the end of the function, where the source has
  no \<open>return\<close> statement.
\<close>

definition debounce :: "8 word \<Rightarrow> debounce_table \<Rightarrow> bool option \<times> debounce_table" where
  "debounce keyId t =
     (case debounce_tracked keyId t of
        Some (r, t') \<Rightarrow> (Some r, t')
      | None \<Rightarrow>
          (case debounce_new keyId t of
             Some t' \<Rightarrow> (Some True, t')
           | None \<Rightarrow> (None, t)))"

text \<open>The call \<open>if (debounce(keyId))\<close> as the callers see it, on the globals.\<close>

definition debounce_call :: "platform \<Rightarrow> 8 word \<Rightarrow> state \<Rightarrow> bool \<times> state" where
  "debounce_call P keyId s =
     (case debounce keyId (debounceKeys s) of
        (Some r, t') \<Rightarrow> (r, s\<lparr>debounceKeys := t'\<rparr>)
      | (None, t') \<Rightarrow> (noreturn P keyId (debounceKeys s), s\<lparr>debounceKeys := t'\<rparr>))"

section \<open>Layout tables\<close>

text \<open>
  \<open>KEY_CODES\<close> and \<open>KEY_CODES_SHIFT_NEEDED\<close> of a sketch, indexed by keyId. Both arrays
  have \<open>DRIVE_COUNT * SENSE_COUNT\<close> entries and the sketch reads them only at a keyId that
  \<open>getKeyId\<close> returned. \<open>matrix_key\<close> says that a keyId is inside the tables and
  below 128, where \<open>int8_t\<close> and \<open>uint8_t\<close> hold the same number.
\<close>

record layout =
  KEY_CODES :: "16 word list"
  KEY_CODES_SHIFT_NEEDED :: "bool list"

definition matrix_key :: "layout \<Rightarrow> 8 word \<Rightarrow> bool" where
  "matrix_key L keyId \<longleftrightarrow> unat keyId < length (KEY_CODES L) \<and> unat keyId < 128"

definition PET :: "platform \<Rightarrow> layout" where
  "PET P = \<lparr> KEY_CODES = map (keycode P) [
      ''KEY_1'', ''KEY_3'', ''KEY_5'', ''KEY_7'', ''KEY_9'', ''KEY_MINUS'', ''KEY_0'', ''KEY_0'',
      ''KEY_QUOTE'', ''KEY_4'', ''KEY_QUOTE'', ''KEY_BACKSLASH'', ''KEY_0'', ''KEY_0'', ''KEY_0'', ''KEY_BACKSPACE'',
      ''KEY_Q'', ''KEY_E'', ''KEY_T'', ''KEY_U'', ''KEY_O'', ''KEY_TAB'', ''KEYPAD_7'', ''KEYPAD_9'',
      ''KEY_W'', ''KEY_R'', ''KEY_Y'', ''KEY_I'', ''KEY_P'', ''KEY_0'', ''KEYPAD_8'', ''KEYPAD_SLASH'',
      ''KEY_A'', ''KEY_D'', ''KEY_G'', ''KEY_J'', ''KEY_L'', ''KEY_0'', ''KEYPAD_4'', ''KEYPAD_6'',
      ''KEY_S'', ''KEY_F'', ''KEY_H'', ''KEY_K'', ''KEY_SEMICOLON'', ''KEY_0'', ''KEYPAD_5'', ''KEYPAD_ASTERIX'',
      ''KEY_Z'', ''KEY_C'', ''KEY_B'', ''KEY_M'', ''KEY_SEMICOLON'', ''KEY_ENTER'', ''KEYPAD_1'', ''KEYPAD_3'',
      ''KEY_X'', ''KEY_V'', ''KEY_N'', ''KEY_COMMA'', ''KEY_SLASH'', ''KEY_0'', ''KEYPAD_2'', ''KEYPAD_PLUS'',
      ''KEY_0'', ''KEY_2'', ''KEY_RIGHT_BRACE'', ''KEY_0'', ''KEY_PERIOD'', ''KEY_0'', ''KEYPAD_0'', ''KEYPAD_MINUS'',
      ''KEY_0'', ''KEY_LEFT_BRACE'', ''KEY_SPACE'', ''KEY_COMMA'', ''KEY_ESC'', ''KEY_0'', ''KEYPAD_PERIOD'', ''KEY_EQUAL''],
    KEY_CODES_SHIFT_NEEDED = [
      True, True, True, True, True, False, False, False,
      True, True, False, False, True, False, False, False,
      False, False, False, False, False, False, False, False,
      False, False, False, False, False, False, False, False,
      False, False, False, False, False, False, False, False,
      False, False, False, False, True, False, False, False,
      False, False, False, False, False, False, False, False,
      False, False, False, False, True, False, False, False,
      False, True, False, False, True, False, False, False,
      False, False, False, True, False, False, False, False] \<rparr>"

abbreviation (input) LOW :: bool where "LOW \<equiv> False"
abbreviation (input) HIGH :: bool where "HIGH \<equiv> True"

section \<open>setKey and checkRelease\<close>

text \<open>
  The two searches over \<open>usbKeys\<close>. \<open>key_slot\<close> is the loop that looks for
  \<open>usbKeys[keyNum] == keyId\<close> (an \<open>int8_t\<close> against a \<open>uint8_t\<close>, compared as \<open>int\<close>),
  \<open>free_slot\<close> the loop that looks for \<open>usbKeys[keyNum] == -1\<close>; both give the first
  index found.
\<close>

fun key_slot :: "8 word \<Rightarrow> 8 word list \<Rightarrow> nat option" where
  "key_slot keyId [] = None"
| "key_slot keyId (u # us) =
     (if sint u = uint keyId then Some 0 else map_option Suc (key_slot keyId us))"

fun free_slot :: "8 word list \<Rightarrow> nat option" where
  "free_slot [] = None"
| "free_slot (u # us) = (if u = - 1 then Some 0 else map_option Suc (free_slot us))"

text \<open>
  \<open>setKey\<close> of the PET and VICE sketches (the same text in both). The \<open>switch\<close> over
  \<open>keyNum + 1\<close> that picks \<open>set_key1\<close> ... \<open>set_key6\<close> is the update of \<open>key_regs\<close> at
  \<open>keyNum\<close>.
\<close>

definition setKey :: "platform \<Rightarrow> layout \<Rightarrow> 8 word \<Rightarrow> 16 word \<Rightarrow> state \<Rightarrow> bool \<times> state" where
  "setKey P L keyId keyCode s =
     (if keysUsed s = 6 then (False, s)
      else
        (let (d, s1) = debounce_call P keyId s in
         if d then (False, s1)
         else
           (case key_slot keyId (usbKeys s1) of
              Some keyNum \<Rightarrow> (True, s1)
            | None \<Rightarrow>
                (case free_slot (usbKeys s1) of
                   None \<Rightarrow> (False, s1)
                 | Some keyNum \<Rightarrow>
                     (let s2 = s1\<lparr>usbKeys := (usbKeys s1)[keyNum := keyId],
                                   keysUsed := keysUsed s1 + 1\<rparr>;
                          s3 = s2\<lparr>modifiers :=
                                     (if KEY_CODES_SHIFT_NEEDED L ! unat keyId
                                      then modifiers s2 OR keycode P ''MODIFIERKEY_SHIFT''
                                      else modifiers s2)\<rparr>;
                          s4 = s3\<lparr>keyStateChange := True\<rparr>;
                          keyToSet = (if keyCode \<noteq> 0 then keyCode else KEY_CODES L ! unat keyId)
                      in (True, s4\<lparr>key_regs := (key_regs s4)[keyNum := keyToSet]\<rparr>))))))"

definition checkRelease :: "platform \<Rightarrow> layout \<Rightarrow> 8 word \<Rightarrow> state \<Rightarrow> state" where
  "checkRelease P L keyId s =
     (let (d, s1) = debounce_call P keyId s in
      if d then s1
      else
        (case key_slot keyId (usbKeys s1) of
           None \<Rightarrow> s1
         | Some keyNum \<Rightarrow>
             (let s2 = s1\<lparr>usbKeys := (usbKeys s1)[keyNum := - 1],
                           keysUsed := keysUsed s1 - 1\<rparr>;
                  s3 = s2\<lparr>modifiers :=
                             (if KEY_CODES_SHIFT_NEEDED L ! unat keyId
                              then modifiers s2 AND NOT (keycode P ''MODIFIERKEY_SHIFT'')
                              else modifiers s2)\<rparr>;
                  s4 = s3\<lparr>keyStateChange := True\<rparr>
              in s4\<lparr>key_regs := (key_regs s4)[keyNum := 0]\<rparr>)))"

section \<open>parseSpecial of the PET sketch\<close>

text \<open>
  \<open>gated P keyId body s\<close> is the statement pair
  \<open>if (debounce(keyId)) return true; body\<close>: the first component says that the function
  has returned.
\<close>

definition gated :: "platform \<Rightarrow> 8 word \<Rightarrow> (state \<Rightarrow> state) \<Rightarrow> state \<Rightarrow> bool \<times> state" where
  "gated P keyId body s =
     (let (d, s1) = debounce_call P keyId s in
      if d then (True, s1) else (False, body s1))"

definition parseSpecial :: "platform \<Rightarrow> layout \<Rightarrow> 8 word \<Rightarrow> bool \<Rightarrow> state \<Rightarrow> bool \<times> state" where
  "parseSpecial P L keyId level s =
     (if keyId = 64 then
        (let (ret, s1) =
               (if level = LOW \<and> lShift s = False
                then gated P keyId (\<lambda>t. t\<lparr>lShift := True, keyStateChange := True\<rparr>) s
                else (False, s))
         in if ret then (True, s1)
            else
              (let (ret, s2) =
                     (if level = HIGH \<and> lShift s1 = True
                      then gated P keyId (\<lambda>t. t\<lparr>lShift := False, keyStateChange := True\<rparr>) s1
                      else (False, s1))
               in (True, s2)))
      else if keyId = 69 then
        (let (ret, s1) =
               (if level = LOW \<and> rShift s = False
                then gated P keyId (\<lambda>t. t\<lparr>rShift := True, keyStateChange := True\<rparr>) s
                else (False, s))
         in if ret then (True, s1)
            else
              (let (ret, s2) =
                     (if level = HIGH \<and> rShift s1 = True
                      then gated P keyId (\<lambda>t. t\<lparr>rShift := False, keyStateChange := True\<rparr>) s1
                      else (False, s1))
               in (True, s2)))
      else if keyId = 72 then
        (if level = LOW
         then (True, snd (gated P keyId
                 (\<lambda>t. t\<lparr>modifiers := modifiers t OR keycode P ''MODIFIERKEY_CTRL'',
                          keyStateChange := True\<rparr>) s))
         else (True, snd (gated P keyId
                 (\<lambda>t. t\<lparr>modifiers := modifiers t AND NOT (keycode P ''MODIFIERKEY_CTRL''),
                          keyStateChange := True\<rparr>) s)))
      else if keyId = 7 then
        (if level = LOW
         then
           (let s1 = (if lShift s \<or> rShift s
                      then snd (setKey P L keyId (keycode P ''KEY_LEFT'') s)
                      else snd (setKey P L keyId (keycode P ''KEY_RIGHT'') s))
            in (True, s1\<lparr>rArrow := True\<rparr>))
         else (True, (checkRelease P L keyId s)\<lparr>rArrow := False\<rparr>))
      else if keyId = 14 then
        (if level = LOW
         then
           (let s1 = (if lShift s \<or> rShift s
                      then snd (setKey P L keyId (keycode P ''KEY_UP'') s)
                      else snd (setKey P L keyId (keycode P ''KEY_DOWN'') s))
            in (True, s1\<lparr>lArrow := True\<rparr>))
         else (True, (checkRelease P L keyId s)\<lparr>lArrow := False\<rparr>))
      else (False, s))"

section \<open>detectKeys and loop of the PET sketch\<close>


definition getKeyId :: "nat \<Rightarrow> nat \<Rightarrow> 8 word" where
  "getKeyId i j = of_nat (i * 8 + j)"

text \<open>
  The body of the inner loop of \<open>detectKeys\<close> for drive line \<open>i\<close> and sense line \<open>j\<close>.
  \<open>pins i j\<close> is what \<open>digitalRead(SENSE_PINS[j])\<close> returns while drive line \<open>i\<close> is low.
  The source reads the pin twice; the first reading is used by the special keys only and
  the second by the other keys only, so one reading per key loses nothing.
\<close>

definition scanKey :: "platform \<Rightarrow> layout \<Rightarrow> (nat \<Rightarrow> nat \<Rightarrow> bool) \<Rightarrow> nat \<Rightarrow> nat \<Rightarrow> state \<Rightarrow> state" where
  "scanKey P L pins i j s =
     (let keyId = getKeyId i j;
          (special, s1) = parseSpecial P L keyId (pins i j) s
      in if \<not> special
         then (if pins i j = LOW then snd (setKey P L keyId 0 s1) else checkRelease P L keyId s1)
         else s1)"


text \<open>
  The part of \<open>loop\<close> after \<open>detectKeys\<close>. \<open>send_now\<close> transmits the report held by the
  \<open>Keyboard\<close> object: the modifier just set and the six key registers.
\<close>

definition sendReport :: "platform \<Rightarrow> state \<Rightarrow> state" where
  "sendReport P s =
     (if keyStateChange s then
        (let s1 = (if \<not> (lArrow s \<or> rArrow s) \<and> (lShift s \<or> rShift s)
                   then s\<lparr>modifiers := modifiers s OR keycode P ''MODIFIERKEY_SHIFT''\<rparr>
                   else s);
             s2 = s1\<lparr>keyStateChange := False\<rparr>;
             s3 = s2\<lparr>modifier_reg := modifiers s2\<rparr>;
             s4 = s3\<lparr>sent := sent s3 @ [(modifier_reg s3, key_regs s3)]\<rparr>
         in s4\<lparr>modifiers := modifiers s4 AND NOT (keycode P ''MODIFIERKEY_SHIFT'')\<rparr>)
      else s)"


section \<open>The VICE sketch\<close>









section \<open>The CBM 64 sketch\<close>

text \<open>
  The CBM 64 sketch has a 9 by 9 matrix. Its \<open>KEY_CODES_SHIFT_NEEDED\<close> is an array of
  \<open>short\<close> with the values 1 (apply shift), 0 and -1 (ignore shift).
\<close>

definition KEY_CODES_CBM :: "platform \<Rightarrow> 16 word list" where
  "KEY_CODES_CBM P = [
      keycode P ''KEY_1'', keycode P ''KEY_3'', keycode P ''KEY_5'', keycode P ''KEY_7'', keycode P ''KEY_9'', keycode P ''KEYPAD_PLUS'', keycode P ''KEY_LEFT_BRACE'', keycode P ''KEY_DELETE'', keycode P ''KEY_0'',
      keycode P ''KEY_ESC'', keycode P ''KEY_W'', keycode P ''KEY_R'', keycode P ''KEY_Y'', keycode P ''KEY_I'', keycode P ''KEY_P'', keycode P ''KEYPAD_ASTERIX'', keycode P ''KEY_ENTER'', keycode P ''KEY_0'',
      keycode P ''MODIFIERKEY_CTRL'', keycode P ''KEY_A'', keycode P ''KEY_D'', keycode P ''KEY_G'', keycode P ''KEY_J'', keycode P ''KEY_L'', keycode P ''KEY_SEMICOLON'', 0x50, keycode P ''KEY_0'',
      keycode P ''KEY_CAPS_LOCK'', keycode P ''MODIFIERKEY_SHIFT'', keycode P ''KEY_X'', keycode P ''KEY_V'', keycode P ''KEY_N'', keycode P ''KEY_COMMA'', keycode P ''KEY_SLASH'', 0x52, keycode P ''KEY_0'',
      keycode P ''KEY_SPACE'', keycode P ''KEY_Z'', keycode P ''KEY_C'', keycode P ''KEY_B'', keycode P ''KEY_M'', keycode P ''KEY_PERIOD'', keycode P ''MODIFIERKEY_RIGHT_SHIFT'', keycode P ''KEY_F1'', keycode P ''KEY_0'',
      keycode P ''MODIFIERKEY_GUI'', keycode P ''KEY_S'', keycode P ''KEY_F'', keycode P ''KEY_H'', keycode P ''KEY_K'', keycode P ''KEY_SEMICOLON'', keycode P ''KEY_EQUAL'', keycode P ''KEY_F3'', keycode P ''KEY_0'',
      keycode P ''KEY_Q'', keycode P ''KEY_E'', keycode P ''KEY_T'', keycode P ''KEY_U'', keycode P ''KEY_O'', keycode P ''KEY_2'', keycode P ''KEY_BACKSLASH'', keycode P ''KEY_F5'', keycode P ''KEY_0'',
      keycode P ''KEY_2'', keycode P ''KEY_4'', keycode P ''KEY_6'', keycode P ''KEY_8'', keycode P ''KEY_0'', keycode P ''KEY_MINUS'', keycode P ''KEY_HOME'', keycode P ''KEY_F7'', keycode P ''KEY_0'',
      keycode P ''KEY_TAB'', keycode P ''KEY_0'', keycode P ''KEY_0'', keycode P ''KEY_0'', keycode P ''KEY_0'', keycode P ''KEY_0'', keycode P ''KEY_0'', keycode P ''KEY_0'', keycode P ''KEY_0'']"

definition KEY_CODES_SHIFT_NEEDED_CBM :: "int list" where
  "KEY_CODES_SHIFT_NEEDED_CBM = [
      0, 0, 0, 0, 0, 0, 1, 0, 0,
      0, 0, 0, 0, 0, 0, 1, 0, 0,
      0, 0, 0, 0, 0, 0, 0, 0, 0,
      0, 0, 0, 0, 0, 0, 0, 0, 0,
      0, 0, 0, 0, 0, 0, 0, 0, 0,
      0, 0, 0, 0, 0, 0, 0, 0, 0,
      0, 0, 0, 0, 0, 1, 0, 0, 0,
      0, 0, 0, 0, 0, 0, 0, 0, 0,
      0, 0, 0, 0, 0, 0, 0, 0, 0]"

definition setKey_CBM :: "platform \<Rightarrow> 8 word \<Rightarrow> 16 word \<Rightarrow> state \<Rightarrow> bool \<times> state" where
  "setKey_CBM P keyId keyCode s =
     (if keysUsed s = 6 then (False, s)
      else
        (let (d, s1) = debounce_call P keyId s in
         if d then (False, s1)
         else
           (case key_slot keyId (usbKeys s1) of
              Some keyNum \<Rightarrow> (True, s1)
            | None \<Rightarrow>
                (case free_slot (usbKeys s1) of
                   None \<Rightarrow> (False, s1)
                 | Some keyNum \<Rightarrow>
                     (let s2 = s1\<lparr>usbKeys := (usbKeys s1)[keyNum := keyId],
                                   keysUsed := keysUsed s1 + 1\<rparr>;
                          s3 = s2\<lparr>modifiers :=
                                     (if KEY_CODES_SHIFT_NEEDED_CBM ! unat keyId = 1
                                      then modifiers s2 OR keycode P ''MODIFIERKEY_SHIFT''
                                      else if KEY_CODES_SHIFT_NEEDED_CBM ! unat keyId = - 1
                                      then modifiers s2 AND NOT (keycode P ''MODIFIERKEY_SHIFT'')
                                      else modifiers s2)\<rparr>;
                          s4 = s3\<lparr>keyStateChange := True\<rparr>;
                          keyToSet = (if keyCode \<noteq> 0 then keyCode else KEY_CODES_CBM P ! unat keyId)
                      in (True, s4\<lparr>key_regs := (key_regs s4)[keyNum := keyToSet]\<rparr>))))))"

definition checkRelease_CBM :: "platform \<Rightarrow> 8 word \<Rightarrow> state \<Rightarrow> state" where
  "checkRelease_CBM P keyId s =
     (let (d, s1) = debounce_call P keyId s in
      if d then s1
      else
        (case key_slot keyId (usbKeys s1) of
           None \<Rightarrow> s1
         | Some keyNum \<Rightarrow>
             (let s2 = s1\<lparr>usbKeys := (usbKeys s1)[keyNum := - 1],
                           keysUsed := keysUsed s1 - 1\<rparr>;
                  s3 = s2\<lparr>modifiers :=
                             (if KEY_CODES_SHIFT_NEEDED_CBM ! unat keyId = 1
                              then modifiers s2 AND NOT (keycode P ''MODIFIERKEY_SHIFT'')
                              else modifiers s2)\<rparr>;
                  s4 = s3\<lparr>keyStateChange := True\<rparr>
              in s4\<lparr>key_regs := (key_regs s4)[keyNum := 0]\<rparr>)))"

text \<open>
  The bodies of the \<open>switch\<close> cases of the CBM 64 \<open>parseSpecial\<close> that press with one of
  two codes, chosen by the Shift latches, and release with \<open>checkRelease\<close>
  (cases 6, 7 and 69), and those that press with one code (cases 60 and 80).
\<close>

definition shifted_key :: "platform \<Rightarrow> 8 word \<Rightarrow> bool \<Rightarrow> 16 word \<Rightarrow> 16 word \<Rightarrow> state \<Rightarrow> state" where
  "shifted_key P keyId level withShift without s =
     (if level = LOW
      then (if lShift s \<or> rShift s
            then snd (setKey_CBM P keyId withShift s)
            else snd (setKey_CBM P keyId without s))
      else checkRelease_CBM P keyId s)"

definition plain_key :: "platform \<Rightarrow> 8 word \<Rightarrow> bool \<Rightarrow> 16 word \<Rightarrow> state \<Rightarrow> state" where
  "plain_key P keyId level code s =
     (if level = LOW
      then snd (setKey_CBM P keyId code s)
      else checkRelease_CBM P keyId s)"

text \<open>
  \<open>parseSpecial\<close> of the CBM 64 sketch. Case 60 has no \<open>break\<close>: after its statements
  control runs on into the statements of case 69, still with the keyId 60.
\<close>

definition parseSpecial_CBM :: "platform \<Rightarrow> 8 word \<Rightarrow> bool \<Rightarrow> state \<Rightarrow> bool \<times> state" where
  "parseSpecial_CBM P keyId level s =
     (if keyId = 6 then (True, shifted_key P keyId level 0 (keycode P ''KEY_LEFT_BRACE'') s)
      else if keyId = 7 then
        (True, shifted_key P keyId level (keycode P ''KEY_DELETE'') (keycode P ''KEY_BACKSPACE'') s)
      else if keyId = 28 then
        (let (ret, s1) =
               (if level = LOW \<and> lShift s = False
                then gated P keyId (\<lambda>t. t\<lparr>lShift := True, keyStateChange := True\<rparr>) s
                else (False, s))
         in if ret then (True, s1)
            else
              (let (ret, s2) =
                     (if level = HIGH \<and> lShift s1 = True
                      then gated P keyId (\<lambda>t. t\<lparr>lShift := False, keyStateChange := True\<rparr>) s1
                      else (False, s1))
               in (True, s2)))
      else if keyId = 42 then
        (let (ret, s1) =
               (if level = LOW \<and> rShift s = False
                then gated P keyId (\<lambda>t. t\<lparr>rShift := True, keyStateChange := True\<rparr>) s
                else (False, s))
         in if ret then (True, s1)
            else
              (let (ret, s2) =
                     (if level = HIGH \<and> rShift s1 = True
                      then gated P keyId (\<lambda>t. t\<lparr>rShift := False, keyStateChange := True\<rparr>) s1
                      else (False, s1))
               in (True, s2)))
      else if keyId = 18 then
        (if level = LOW
         then (True, snd (gated P keyId
                 (\<lambda>t. t\<lparr>modifiers := modifiers t OR keycode P ''MODIFIERKEY_CTRL'',
                          keyStateChange := True\<rparr>) s))
         else (True, snd (gated P keyId
                 (\<lambda>t. t\<lparr>modifiers := modifiers t AND NOT (keycode P ''MODIFIERKEY_CTRL''),
                          keyStateChange := True\<rparr>) s)))
      else if keyId = 25 then
        (if level = LOW
         then (True, (shifted_key P keyId level (keycode P ''KEY_LEFT'') (keycode P ''KEY_RIGHT'') s)
                       \<lparr>rArrow := True\<rparr>)
         else (True, (shifted_key P keyId level (keycode P ''KEY_LEFT'') (keycode P ''KEY_RIGHT'') s)
                       \<lparr>rArrow := False\<rparr>))
      else if keyId = 27 then
        (if level = LOW
         then (True, snd (gated P keyId
                 (\<lambda>t. t\<lparr>modifiers := modifiers t OR keycode P ''MODIFIERKEY_ALT'',
                          keyStateChange := True\<rparr>) s))
         else (True, snd (gated P keyId
                 (\<lambda>t. t\<lparr>modifiers := modifiers t AND NOT (keycode P ''MODIFIERKEY_ALT''),
                          keyStateChange := True\<rparr>) s)))
      else if keyId = 34 then
        (if level = LOW
         then (True, (shifted_key P keyId level (keycode P ''KEY_UP'') (keycode P ''KEY_DOWN'') s)
                       \<lparr>lArrow := True\<rparr>)
         else (True, (shifted_key P keyId level (keycode P ''KEY_UP'') (keycode P ''KEY_DOWN'') s)
                       \<lparr>lArrow := False\<rparr>))
      else if keyId = 45 then
        (if level = LOW
         then (True, snd (gated P keyId
                 (\<lambda>t. t\<lparr>modifiers := modifiers t OR keycode P ''MODIFIERKEY_GUI'',
                          keyStateChange := True\<rparr>) s))
         else (True, snd (gated P keyId
                 (\<lambda>t. t\<lparr>modifiers := modifiers t AND NOT (keycode P ''MODIFIERKEY_GUI''),
                          keyStateChange := True\<rparr>) s)))
      else if keyId = 50 then
        (if level = LOW
         then (if lShift s \<or> rShift s
               then (True, snd (setKey_CBM P keyId (keycode P ''KEY_LEFT_BRACE'') s))
               else (True, snd (setKey_CBM P keyId (keycode P ''KEY_SEMICOLON'')
                           (s\<lparr>modifiers := modifiers s OR keycode P ''MODIFIERKEY_SHIFT''\<rparr>))))
         else (True, checkRelease_CBM P keyId
                       (s\<lparr>modifiers := modifiers s AND NOT (keycode P ''MODIFIERKEY_SHIFT'')\<rparr>)))
      else if keyId = 60 then
        (let s1 = plain_key P keyId level (keycode P ''KEY_BACKSLASH'') s
         in (True, shifted_key P keyId level (keycode P ''KEY_END'') (keycode P ''KEY_HOME'') s1))
      else if keyId = 69 then
        (True, shifted_key P keyId level (keycode P ''KEY_END'') (keycode P ''KEY_HOME'') s)
      else if keyId = 80 then (True, plain_key P keyId level (keycode P ''KEY_TAB'') s)
      else (False, s))"

section \<open>A platform to evaluate on\<close>

text \<open>
  \<open>teensy\<close> gives every macro name used by the sketches a number (those of the key layout
  header of the Teensy core: usage code with a marker in the high byte), and lets a caller
  of \<open>debounce\<close> read ``suppress'' where \<open>debounce\<close> returns nothing. It is used only
  where a theorem evaluates the model at a concrete input.
\<close>

definition teensy_codes :: "(string \<times> 16 word) list" where
  "teensy_codes = [
      (''MODIFIERKEY_CTRL'', 0xE001), (''MODIFIERKEY_SHIFT'', 0xE002), (''MODIFIERKEY_ALT'', 0xE004),
      (''MODIFIERKEY_GUI'', 0xE008), (''MODIFIERKEY_LEFT_SHIFT'', 0xE002), (''MODIFIERKEY_LEFT_ALT'', 0xE004),
      (''MODIFIERKEY_RIGHT_SHIFT'', 0xE020), (''MODIFIERKEY_RIGHT_ALT'', 0xE040), (''KEY_A'', 0xF004),
      (''KEY_B'', 0xF005), (''KEY_C'', 0xF006), (''KEY_D'', 0xF007),
      (''KEY_E'', 0xF008), (''KEY_F'', 0xF009), (''KEY_G'', 0xF00A),
      (''KEY_H'', 0xF00B), (''KEY_I'', 0xF00C), (''KEY_J'', 0xF00D),
      (''KEY_K'', 0xF00E), (''KEY_L'', 0xF00F), (''KEY_M'', 0xF010),
      (''KEY_N'', 0xF011), (''KEY_O'', 0xF012), (''KEY_P'', 0xF013),
      (''KEY_Q'', 0xF014), (''KEY_R'', 0xF015), (''KEY_S'', 0xF016),
      (''KEY_T'', 0xF017), (''KEY_U'', 0xF018), (''KEY_V'', 0xF019),
      (''KEY_W'', 0xF01A), (''KEY_X'', 0xF01B), (''KEY_Y'', 0xF01C),
      (''KEY_Z'', 0xF01D), (''KEY_1'', 0xF01E), (''KEY_2'', 0xF01F),
      (''KEY_3'', 0xF020), (''KEY_4'', 0xF021), (''KEY_5'', 0xF022),
      (''KEY_6'', 0xF023), (''KEY_7'', 0xF024), (''KEY_8'', 0xF025),
      (''KEY_9'', 0xF026), (''KEY_0'', 0xF027), (''KEY_ENTER'', 0xF028),
      (''KEY_ESC'', 0xF029), (''KEY_BACKSPACE'', 0xF02A), (''KEY_TAB'', 0xF02B),
      (''KEY_SPACE'', 0xF02C), (''KEY_MINUS'', 0xF02D), (''KEY_EQUAL'', 0xF02E),
      (''KEY_LEFT_BRACE'', 0xF02F), (''KEY_RIGHT_BRACE'', 0xF030), (''KEY_BACKSLASH'', 0xF031),
      (''KEY_SEMICOLON'', 0xF033), (''KEY_QUOTE'', 0xF034), (''KEY_TILDE'', 0xF035),
      (''KEY_COMMA'', 0xF036), (''KEY_PERIOD'', 0xF037), (''KEY_SLASH'', 0xF038),
      (''KEY_CAPS_LOCK'', 0xF039), (''KEY_HOME'', 0xF04A), (''KEY_DELETE'', 0xF04C),
      (''KEY_END'', 0xF04D), (''KEY_RIGHT'', 0xF04F), (''KEY_LEFT'', 0xF050),
      (''KEY_DOWN'', 0xF051), (''KEY_UP'', 0xF052), (''KEY_F1'', 0xF03A),
      (''KEY_F2'', 0xF03B), (''KEY_F3'', 0xF03C), (''KEY_F4'', 0xF03D),
      (''KEY_F5'', 0xF03E), (''KEY_F6'', 0xF03F), (''KEY_F7'', 0xF040),
      (''KEY_F8'', 0xF041), (''KEY_F9'', 0xF042), (''KEY_F10'', 0xF043),
      (''KEY_F11'', 0xF044), (''KEY_F12'', 0xF045), (''KEYPAD_SLASH'', 0xF054),
      (''KEYPAD_ASTERIX'', 0xF055), (''KEYPAD_MINUS'', 0xF056), (''KEYPAD_PLUS'', 0xF057),
      (''KEYPAD_0'', 0xF062), (''KEYPAD_PERIOD'', 0xF063), (''KEYPAD_1'', 0xF059),
      (''KEYPAD_2'', 0xF05A), (''KEYPAD_3'', 0xF05B), (''KEYPAD_4'', 0xF05C),
      (''KEYPAD_5'', 0xF05D), (''KEYPAD_6'', 0xF05E), (''KEYPAD_7'', 0xF05F),
      (''KEYPAD_8'', 0xF060), (''KEYPAD_9'', 0xF061)]"

definition teensy_keycode :: "string \<Rightarrow> 16 word" where
  "teensy_keycode name = (case map_of teensy_codes name of Some c \<Rightarrow> c | None \<Rightarrow> 0)"

definition reads_suppress :: "8 word \<Rightarrow> debounce_table \<Rightarrow> bool" where
  "reads_suppress keyId t = True"

definition teensy :: platform where
  "teensy = \<lparr> keycode = teensy_keycode, noreturn = reads_suppress \<rparr>"

text \<open>Sense readings: no key pressed, and the keys at the listed (drive, sense) pairs pressed.\<close>

definition released :: "nat \<Rightarrow> nat \<Rightarrow> bool" where
  "released i j = HIGH"


section \<open>Occupied slots and reachable states\<close>

definition occupied :: "8 word list \<Rightarrow> nat" where
  "occupied us = length (filter (\<lambda>u. u \<noteq> - 1) us)"

definition no_double :: "8 word list \<Rightarrow> bool" where
  "no_double us = distinct (filter (\<lambda>u. u \<noteq> - 1) us)"

definition slots_ok :: "state \<Rightarrow> bool" where
  "slots_ok s \<longleftrightarrow>
     length (usbKeys s) = 6 \<and> unat (keysUsed s) = occupied (usbKeys s) \<and> no_double (usbKeys s)"

text \<open>
  The states the PET engine can be in: the initial state, and every state that follows
  one by a call of \<open>setKey\<close>, \<open>checkRelease\<close> or \<open>parseSpecial\<close> on a key of the matrix,
  or by the report step of \<open>loop\<close>.
\<close>

inductive reachable :: "platform \<Rightarrow> layout \<Rightarrow> state \<Rightarrow> bool" for P :: platform and L :: layout where
  start: "reachable P L initial"
| set: "reachable P L s \<Longrightarrow> matrix_key L keyId \<Longrightarrow> reachable P L (snd (setKey P L keyId keyCode s))"
| release: "reachable P L s \<Longrightarrow> matrix_key L keyId \<Longrightarrow> reachable P L (checkRelease P L keyId s)"
| special: "reachable P L s \<Longrightarrow> matrix_key L keyId \<Longrightarrow> reachable P L (snd (parseSpecial P L keyId level s))"
| report: "reachable P L s \<Longrightarrow> reachable P L (sendReport P s)"

text \<open>
  Sequences of calls, to name particular reachable states: \<open>run P L cs s\<close> makes the calls
  \<open>cs\<close> in order, starting in \<open>s\<close>.
\<close>

datatype call =
    SetKey "8 word" "16 word"
  | CheckRelease "8 word"
  | ParseSpecial "8 word" bool
  | SendReport

fun call_ok :: "layout \<Rightarrow> call \<Rightarrow> bool" where
  "call_ok L (SetKey keyId keyCode) = matrix_key L keyId"
| "call_ok L (CheckRelease keyId) = matrix_key L keyId"
| "call_ok L (ParseSpecial keyId level) = matrix_key L keyId"
| "call_ok L SendReport = True"

fun exec :: "platform \<Rightarrow> layout \<Rightarrow> call \<Rightarrow> state \<Rightarrow> state" where
  "exec P L (SetKey keyId keyCode) s = snd (setKey P L keyId keyCode s)"
| "exec P L (CheckRelease keyId) s = checkRelease P L keyId s"
| "exec P L (ParseSpecial keyId level) s = snd (parseSpecial P L keyId level s)"
| "exec P L SendReport s = sendReport P s"

definition run :: "platform \<Rightarrow> layout \<Rightarrow> call list \<Rightarrow> state \<Rightarrow> state" where
  "run P L cs s = fold (exec P L) cs s"

text \<open>Six keys, each pressed for three consecutive calls of \<open>setKey\<close>.\<close>

definition six_presses :: "call list" where
  "six_presses = concat (map (\<lambda>keyId. replicate 3 (SetKey keyId 0)) [1, 2, 3, 4, 5, 8])"











text \<open>
  Two states at the start of a scan cycle, outside the debounce table: no key in a slot,
  and the key at drive line 0 and sense line 0 (keyId 0, \<open>KEY_1\<close>) alone in slot 0.
  In both the Shift latches are clear, no modifier is set and no report is pending.
\<close>

definition at_rest :: "state \<Rightarrow> bool" where
  "at_rest s \<longleftrightarrow>
     usbKeys s = [- 1, - 1, - 1, - 1, - 1, - 1] \<and> keysUsed s = 0 \<and>
     key_regs s = [0, 0, 0, 0, 0, 0] \<and> modifiers s = 0 \<and>
     lShift s = False \<and> rShift s = False \<and> keyStateChange s = False"

definition key_0_held :: "platform \<Rightarrow> state \<Rightarrow> bool" where
  "key_0_held P s \<longleftrightarrow>
     usbKeys s = [0, - 1, - 1, - 1, - 1, - 1] \<and> keysUsed s = 1 \<and>
     key_regs s = [keycode P ''KEY_1'', 0, 0, 0, 0, 0] \<and> modifiers s = 0 \<and>
     lShift s = False \<and> rShift s = False \<and> keyStateChange s = False"





section \<open>Bytes and slots\<close>

lemma signed_take_bit_7: "0 \<le> (x::int) \<Longrightarrow> x < 128 \<Longrightarrow> signed_take_bit (7::nat) x = x"
  by (rule signed_take_bit_int_eq_self) simp_all

lemma sint_small:
  fixes k :: "8 word"
  assumes "unat k < 128"
  shows "sint k = uint k"
proof -
  have "uint k = int (unat k)" by (rule uint_nat)
  with assms have "uint k < 128" by linarith
  moreover have "0 \<le> uint k" by (rule uint_ge_0)
  ultimately have "signed_take_bit (7::nat) (uint k) = uint k"
    by (rule signed_take_bit_7 [rotated])
  then show ?thesis by (simp add: sint_uint)
qed

lemma byte_compare:
  fixes u k :: "8 word"
  assumes "unat k < 128"
  shows "sint u = uint k \<longleftrightarrow> u = k"
proof
  assume "sint u = uint k"
  then have "sint u = sint k" using sint_small [OF assms] by simp
  then show "u = k" by (rule signed_word_eqI)
next
  assume "u = k"
  then show "sint u = uint k" using sint_small [OF assms] by simp
qed

lemma unat_minus1_byte: "unat (- 1 :: 8 word) = 255"
  by (simp add: unsigned_minus_1_eq_mask mask_eq_exp_minus_1)

lemma small_not_minus1:
  fixes k :: "8 word"
  assumes "unat k < 128"
  shows "k \<noteq> - 1"
  using assms unat_minus1_byte by auto

lemma debounce_call_frame:
  "snd (debounce_call P keyId s) = s\<lparr>debounceKeys := snd (debounce keyId (debounceKeys s))\<rparr>"
  by (simp add: debounce_call_def split: prod.splits option.splits)

lemma key_slot_Some: "key_slot k us = Some n \<Longrightarrow> n < length us \<and> sint (us ! n) = uint k"
  by (induction us arbitrary: n) (auto split: if_splits)

lemma key_slot_None: "key_slot k us = None \<Longrightarrow> \<forall>u\<in>set us. sint u \<noteq> uint k"
  by (induction us) (auto split: if_splits)

lemma free_slot_Some: "free_slot us = Some n \<Longrightarrow> n < length us \<and> us ! n = - 1"
  by (induction us arbitrary: n) (auto split: if_splits)

lemma occupied_le: "occupied us \<le> length us"
  by (simp add: occupied_def)

lemma occupied_take: "n < length us \<Longrightarrow> us ! n = - 1 \<Longrightarrow> k \<noteq> - 1 \<Longrightarrow> occupied (us[n := k]) = Suc (occupied us)"
  unfolding occupied_def
  by (induction us arbitrary: n) (auto simp: nth_Cons split: nat.splits)

lemma occupied_free: "n < length us \<Longrightarrow> us ! n \<noteq> - 1 \<Longrightarrow> Suc (occupied (us[n := - 1])) = occupied us"
  unfolding occupied_def
  by (induction us arbitrary: n) (auto simp: nth_Cons split: nat.splits)

lemma filter_update_subset: "set (filter Q (us[n := - 1 :: 8 word])) \<subseteq> insert (- 1) (set (filter Q us))"
  by (induction us arbitrary: n) (auto simp: nth_Cons split: nat.splits)

lemma no_double_take: "n < length us \<Longrightarrow> us ! n = - 1 \<Longrightarrow> k \<notin> set us \<Longrightarrow> no_double us \<Longrightarrow> no_double (us[n := k])"
  unfolding no_double_def
proof (induction us arbitrary: n)
  case Nil
  then show ?case by simp
next
  case (Cons a us)
  show ?case
  proof (cases n)
    case 0
    with Cons.prems show ?thesis by auto
  next
    case (Suc m)
    have sub: "set (us[m := k]) \<subseteq> insert k (set us)" by (rule set_update_subset_insert)
    from Cons.prems Suc have "distinct (filter (\<lambda>u. u \<noteq> - 1) (us[m := k]))"
      by (intro Cons.IH) (auto split: if_splits)
    with Cons.prems Suc sub show ?thesis by (auto split: if_splits)
  qed
qed

lemma no_double_free: "no_double us \<Longrightarrow> no_double (us[n := - 1])"
  unfolding no_double_def
proof (induction us arbitrary: n)
  case Nil
  then show ?case by simp
next
  case (Cons a us)
  show ?case
  proof (cases n)
    case 0
    with Cons.prems show ?thesis by (auto split: if_splits)
  next
    case (Suc m)
    have sub: "set (us[m := - 1]) \<subseteq> insert (- 1) (set us)" by (rule set_update_subset_insert)
    from Cons.prems have "distinct (filter (\<lambda>u. u \<noteq> - 1) (us[m := - 1]))"
      by (intro Cons.IH) (auto split: if_splits)
    with Cons.prems Suc sub show ?thesis by (auto split: if_splits)
  qed
qed

lemma unat_byte_inc: "unat (x :: 8 word) < 255 \<Longrightarrow> unat (x + 1) = Suc (unat x)"
  by (simp add: unat_word_ariths)

lemma unat_byte_dec: "0 < unat (x :: 8 word) \<Longrightarrow> unat (x - 1) = unat x - 1"
  by (rule unat_minus_one) auto

lemma debounce_call_state:
  "debounce_call P keyId s = (d, s1) \<Longrightarrow> s1 = s\<lparr>debounceKeys := snd (debounce keyId (debounceKeys s))\<rparr>"
  using debounce_call_frame [of P keyId s] by simp

lemma matrix_key_small: "matrix_key L k \<Longrightarrow> unat k < 128"
  by (simp add: matrix_key_def)

lemma key_slot_None_notin:
  assumes "unat k < 128" and "key_slot k us = None"
  shows "k \<notin> set us"
  using key_slot_None [OF assms(2)] byte_compare [OF assms(1)] by auto

lemma key_slot_Some_nth:
  assumes "unat k < 128" and "key_slot k us = Some n"
  shows "n < length us \<and> us ! n = k"
  using key_slot_Some [OF assms(2)] byte_compare [OF assms(1)] by auto

lemma setKey_slots_ok:
  assumes k: "matrix_key L keyId" and inv: "slots_ok s"
  shows "slots_ok (snd (setKey P L keyId keyCode s))"
proof -
  obtain d s1 where dc: "debounce_call P keyId s = (d, s1)" by (cases "debounce_call P keyId s")
  have s1: "s1 = s\<lparr>debounceKeys := snd (debounce keyId (debounceKeys s))\<rparr>"
    by (rule debounce_call_state [OF dc])
  have small: "unat keyId < 128" by (rule matrix_key_small [OF k])
  show ?thesis
  proof (cases "keysUsed s = 6 \<or> d \<or> key_slot keyId (usbKeys s) \<noteq> None \<or> free_slot (usbKeys s) = None")
    case True
    then show ?thesis using inv
      by (auto simp: setKey_def dc s1 slots_ok_def split: option.splits)
  next
    case False
    then obtain n where fs: "free_slot (usbKeys s) = Some n" by auto
    from False have ks: "key_slot keyId (usbKeys s) = None" by simp
    have n: "n < length (usbKeys s)" "usbKeys s ! n = - 1"
      using free_slot_Some [OF fs] by simp_all
    have notin: "keyId \<notin> set (usbKeys s)" by (rule key_slot_None_notin [OF small ks])
    have ne: "keyId \<noteq> - 1" by (rule small_not_minus1 [OF small])
    have occ: "occupied ((usbKeys s)[n := keyId]) = Suc (occupied (usbKeys s))"
      by (rule occupied_take [OF n ne])
    have "occupied ((usbKeys s)[n := keyId]) \<le> 6"
      using occupied_le [of "(usbKeys s)[n := keyId]"] inv by (simp add: slots_ok_def)
    with occ inv have lt: "unat (keysUsed s) < 6" by (simp add: slots_ok_def)
    then have inc: "unat (keysUsed s + 1) = Suc (unat (keysUsed s))"
      by (intro unat_byte_inc) simp
    have nd: "no_double ((usbKeys s)[n := keyId])"
      using inv by (intro no_double_take [OF n notin]) (simp add: slots_ok_def)
    from False show ?thesis using inv occ inc nd
      by (simp add: setKey_def dc s1 fs ks slots_ok_def Let_def)
  qed
qed

lemma checkRelease_slots_ok:
  assumes k: "matrix_key L keyId" and inv: "slots_ok s"
  shows "slots_ok (checkRelease P L keyId s)"
proof -
  obtain d s1 where dc: "debounce_call P keyId s = (d, s1)" by (cases "debounce_call P keyId s")
  have s1: "s1 = s\<lparr>debounceKeys := snd (debounce keyId (debounceKeys s))\<rparr>"
    by (rule debounce_call_state [OF dc])
  have small: "unat keyId < 128" by (rule matrix_key_small [OF k])
  show ?thesis
  proof (cases "d \<or> key_slot keyId (usbKeys s) = None")
    case True
    then show ?thesis using inv
      by (auto simp: checkRelease_def dc s1 slots_ok_def split: option.splits)
  next
    case False
    then obtain n where ks: "key_slot keyId (usbKeys s) = Some n" by auto
    have n: "n < length (usbKeys s)" "usbKeys s ! n = keyId"
      using key_slot_Some_nth [OF small ks] by simp_all
    have ne: "usbKeys s ! n \<noteq> - 1" using n small_not_minus1 [OF small] by simp
    have occ: "Suc (occupied ((usbKeys s)[n := - 1])) = occupied (usbKeys s)"
      by (rule occupied_free [OF n(1) ne])
    with inv have pos: "0 < unat (keysUsed s)" by (simp add: slots_ok_def)
    then have dec: "unat (keysUsed s - 1) = unat (keysUsed s) - 1" by (rule unat_byte_dec)
    have nd: "no_double ((usbKeys s)[n := - 1])"
      using inv by (intro no_double_free) (simp add: slots_ok_def)
    from False show ?thesis using inv occ dec nd
      by (simp add: checkRelease_def dc s1 ks slots_ok_def Let_def)
  qed
qed

section \<open>The countdown of debounce\<close>

lemma debounce_tracked_untracked:
  "\<forall>e\<in>set t. sint (fst e) \<noteq> uint keyId \<Longrightarrow> debounce_tracked keyId t = None"
  by (induction t) auto

lemma debounce_new_none:
  "\<forall>e\<in>set t. snd e \<noteq> 0 \<Longrightarrow> debounce_new keyId t = None"
  by (induction t) auto

lemma debounce_tracked_at:
  assumes "\<forall>e\<in>set pre. sint (fst e) \<noteq> uint keyId" and "sint key = uint keyId"
  shows "debounce_tracked keyId (pre @ (key, ticks) # post) =
           (if ticks \<noteq> 1 then Some (True, pre @ (key, ticks - 1) # post)
            else Some (False, pre @ (key, 0) # post))"
  using assms by (induction pre) auto

lemma debounce_new_at:
  assumes "\<forall>e\<in>set pre. snd e \<noteq> 0"
  shows "debounce_new keyId (pre @ (key, 0) # post) = Some (pre @ (keyId, DEBOUNCE_DELAY) # post)"
  using assms by (induction pre) auto

text \<open>
  A tracked key whose countdown is not 1 is suppressed and its countdown decremented;
  this includes the countdown 0, which the source means to re-arm.
\<close>

lemma debounce_counting:
  assumes "\<forall>e\<in>set pre. sint (fst e) \<noteq> uint keyId" and "sint key = uint keyId" and "ticks \<noteq> 1"
  shows "debounce keyId (pre @ (key, ticks) # post) = (Some True, pre @ (key, ticks - 1) # post)"
  using debounce_tracked_at [OF assms(1,2)] assms(3) by (simp add: debounce_def)

text \<open>A tracked key whose countdown is 1 is admitted and its entry becomes idle.\<close>

lemma debounce_admits:
  assumes "\<forall>e\<in>set pre. sint (fst e) \<noteq> uint keyId" and "sint key = uint keyId"
  shows "debounce keyId (pre @ (key, 1) # post) = (Some False, pre @ (key, 0) # post)"
  using debounce_tracked_at [OF assms(1,2), of 1 post] by (simp add: debounce_def)

text \<open>An untracked key takes the first idle entry, with the countdown \<open>DEBOUNCE_DELAY\<close>.\<close>

lemma debounce_arms:
  assumes "\<forall>e\<in>set (pre @ (key, 0) # post). sint (fst e) \<noteq> uint keyId"
    and "\<forall>e\<in>set pre. snd e \<noteq> 0"
  shows "debounce keyId (pre @ (key, 0) # post) = (Some True, pre @ (keyId, DEBOUNCE_DELAY) # post)"
  using debounce_tracked_untracked [OF assms(1)] debounce_new_at [OF assms(2)]
  by (simp add: debounce_def)

text \<open>An untracked key that finds no idle entry: no \<open>return\<close> is reached.\<close>

lemma debounce_no_return:
  assumes "\<forall>e\<in>set t. sint (fst e) \<noteq> uint keyId" and "\<forall>e\<in>set t. snd e \<noteq> 0"
  shows "debounce keyId t = (None, t)"
  using debounce_tracked_untracked [OF assms(1)] debounce_new_none [OF assms(2)]
  by (simp add: debounce_def)

lemma debounce_tracked_length:
  "debounce_tracked keyId t = Some (r, t') \<Longrightarrow> length t' = length t"
  by (induction t arbitrary: t') (auto split: if_splits option.splits)

lemma debounce_new_length:
  "debounce_new keyId t = Some t' \<Longrightarrow> length t' = length t"
  by (induction t arbitrary: t') (auto split: if_splits option.splits)

lemma debounce_length: "length (snd (debounce keyId t)) = length t"
  by (auto simp: debounce_def debounce_tracked_length debounce_new_length split: option.splits)

text \<open>
  Once a tracked entry is idle, \<open>n\<close> further calls for its key leave the countdown at
  \<open>- n\<close>, for every \<open>n\<close> up to 255: the byte has to wrap around before it reaches 1.
\<close>

lemma idle_countdown:
  assumes "sint key = uint keyId" and "n \<le> 255"
  shows "((\<lambda>t. snd (debounce keyId t)) ^^ n) ((key, 0) # es) = (key, - of_nat n) # es"
  using assms(2)
proof (induction n)
  case 0
  then show ?case by simp
next
  case (Suc n)
  then have n: "n < 255" by simp
  have "(of_nat n :: 8 word) \<noteq> - 1"
  proof
    assume "(of_nat n :: 8 word) = - 1"
    then have "unat (of_nat n :: 8 word) = 255"
      by (simp add: unsigned_minus_1_eq_mask mask_eq_exp_minus_1)
    moreover have "unat (of_nat n :: 8 word) = n" using n by (simp add: unat_of_nat)
    ultimately show False using n by simp
  qed
  then have ne: "- (of_nat n :: 8 word) \<noteq> 1" by (metis minus_equation_iff)
  have "debounce keyId ([] @ (key, - of_nat n) # es) = (Some True, [] @ (key, - of_nat n - 1) # es)"
    by (rule debounce_counting) (use assms(1) ne in simp_all)
  with Suc n show ?case by simp
qed

text \<open>
  C1. The countdown protocol of \<open>debounce\<close>: arming an untracked key (\<open>debounce_arms\<close>),
  decrementing (\<open>debounce_counting\<close>) and admitting at 1 (\<open>debounce_admits\<close>) are as
  specified. Re-arming a tracked idle entry is not: the source has the branch
  \<open>else if (debounceKeys[i][1] == 0)\<close> that sets \<open>DEBOUNCE_DELAY\<close>, but it stands behind
  \<open>if (debounceKeys[i][1] != 1)\<close>, which already takes the countdown 0. At power-on
  every entry is \<open>{0, 0}\<close>, so the first three calls for keyId 0 find a tracked idle
  entry, and leave the countdown at -1, -2 and -3 instead of 2, 1 and admission.
\<close>

theorem debounce_idle_entry_counts_down:
  "debounce 0 (debounceKeys initial) = (Some True, [(0, - 1), (0, 0), (0, 0), (0, 0), (0, 0), (0, 0)])
   \<and> debounce 0 [(0, - 1), (0, 0), (0, 0), (0, 0), (0, 0), (0, 0)]
       = (Some True, [(0, - 2), (0, 0), (0, 0), (0, 0), (0, 0), (0, 0)])
   \<and> debounce 0 [(0, - 2), (0, 0), (0, 0), (0, 0), (0, 0), (0, 0)]
       = (Some True, [(0, - 3), (0, 0), (0, 0), (0, 0), (0, 0), (0, 0)])
   \<and> (- 1 :: 8 word) \<noteq> DEBOUNCE_DELAY"
  by (simp add: debounce_def initial_def DEBOUNCE_DELAY_def)

text \<open>
  C4. \<open>debounce\<close> does not return a value on every input. In the first scan after
  power-on with no key pressed, the keys 0 to 5 of drive line 0 fill the table; the call
  for the next key, keyId 6, matches no entry and finds no countdown 0, and control
  reaches the end of the function, where there is no \<open>return\<close>.
\<close>

theorem debounce_seventh_key_no_return:
  "debounceKeys (fold (scanKey P (PET P) released 0) [0..<6] initial)
     = [(0, - 1), (1, 2), (2, 2), (3, 2), (4, 2), (5, 2)]
   \<and> debounce (getKeyId 0 6) [(0, - 1), (1, 2), (2, 2), (3, 2), (4, 2), (5, 2)]
     = (None, [(0, - 1), (1, 2), (2, 2), (3, 2), (4, 2), (5, 2)])"
  by (simp add: upt_rec scanKey_def getKeyId_def parseSpecial_def checkRelease_def released_def
      debounce_call_def debounce_def initial_def DEBOUNCE_DELAY_def Let_def)

section \<open>The report buffer\<close>

lemma slots_ok_update [simp]:
  "slots_ok (s\<lparr>debounceKeys := t\<rparr>) = slots_ok s"
  "slots_ok (s\<lparr>lShift := b\<rparr>) = slots_ok s"
  "slots_ok (s\<lparr>rShift := b\<rparr>) = slots_ok s"
  "slots_ok (s\<lparr>lArrow := b\<rparr>) = slots_ok s"
  "slots_ok (s\<lparr>rArrow := b\<rparr>) = slots_ok s"
  "slots_ok (s\<lparr>modifiers := m\<rparr>) = slots_ok s"
  "slots_ok (s\<lparr>keyStateChange := b\<rparr>) = slots_ok s"
  "slots_ok (s\<lparr>modifier_reg := m\<rparr>) = slots_ok s"
  "slots_ok (s\<lparr>sent := rs\<rparr>) = slots_ok s"
  by (simp_all add: slots_ok_def)

lemma gated_unfold:
  "gated P keyId body s =
     (if fst (debounce_call P keyId s)
      then (True, s\<lparr>debounceKeys := snd (debounce keyId (debounceKeys s))\<rparr>)
      else (False, body (s\<lparr>debounceKeys := snd (debounce keyId (debounceKeys s))\<rparr>)))"
  using debounce_call_frame [of P keyId s]
  by (simp add: gated_def case_prod_beta)

lemma parseSpecial_slots_ok:
  assumes "matrix_key L keyId" and "slots_ok s"
  shows "slots_ok (snd (parseSpecial P L keyId level s))"
  using assms
  by (auto simp: parseSpecial_def gated_unfold Let_def setKey_slots_ok checkRelease_slots_ok)

lemma sendReport_slots_ok: "slots_ok s \<Longrightarrow> slots_ok (sendReport P s)"
  by (simp add: sendReport_def Let_def)

lemma initial_slots_ok: "slots_ok initial"
  by (simp add: slots_ok_def initial_def occupied_def no_double_def)

lemma reachable_slots_ok: "reachable P L s \<Longrightarrow> slots_ok s"
  by (induction rule: reachable.induct)
    (simp_all add: initial_slots_ok setKey_slots_ok checkRelease_slots_ok parseSpecial_slots_ok
       sendReport_slots_ok)

lemma reachable_exec: "reachable P L s \<Longrightarrow> call_ok L c \<Longrightarrow> reachable P L (exec P L c s)"
  by (cases c) (auto intro: reachable.intros)

lemma reachable_run:
  "reachable P L s \<Longrightarrow> list_all (call_ok L) cs \<Longrightarrow> reachable P L (run P L cs s)"
  unfolding run_def
  by (induction cs arbitrary: s) (auto intro: reachable_exec)


lemma free_slot_occupied: "free_slot us = Some n \<Longrightarrow> occupied us < length us"
  using free_slot_Some [of us n] unfolding occupied_def
  by (auto intro!: length_filter_less [of "- 1"] simp: in_set_conv_nth)

lemma held_slot_occupied:
  assumes "n < length us" and "us ! n \<noteq> - 1"
  shows "0 < occupied us"
proof -
  have "us ! n \<in> set (filter (\<lambda>u. u \<noteq> - 1) us)" using assms by simp
  then show ?thesis unfolding occupied_def by (metis length_pos_if_in_set)
qed

lemma setKey_keysUsed:
  "keysUsed (snd (setKey P L keyId keyCode s)) = keysUsed s
   \<or> (keysUsed (snd (setKey P L keyId keyCode s)) = keysUsed s + 1 \<and> keysUsed s \<noteq> 6
       \<and> (\<exists>n. free_slot (usbKeys s) = Some n))"
proof -
  obtain d s1 where dc: "debounce_call P keyId s = (d, s1)" by (cases "debounce_call P keyId s")
  have s1: "s1 = s\<lparr>debounceKeys := snd (debounce keyId (debounceKeys s))\<rparr>"
    by (rule debounce_call_state [OF dc])
  show ?thesis
    by (simp add: setKey_def dc s1 Let_def split: option.splits)
qed

lemma checkRelease_keysUsed:
  "keysUsed (checkRelease P L keyId s) = keysUsed s
   \<or> (keysUsed (checkRelease P L keyId s) = keysUsed s - 1
       \<and> (\<exists>n. key_slot keyId (usbKeys s) = Some n))"
proof -
  obtain d s1 where dc: "debounce_call P keyId s = (d, s1)" by (cases "debounce_call P keyId s")
  have s1: "s1 = s\<lparr>debounceKeys := snd (debounce keyId (debounceKeys s))\<rparr>"
    by (rule debounce_call_state [OF dc])
  show ?thesis
    by (simp add: checkRelease_def dc s1 Let_def split: option.splits)
qed

lemma setKey_full: "keysUsed s = 6 \<Longrightarrow> setKey P L keyId keyCode s = (False, s)"
  by (simp add: setKey_def)

lemma unat_byte_6: "unat (x :: 8 word) = 6 \<longleftrightarrow> x = 6"
proof
  assume "unat x = 6"
  then have "word_of_nat (unat x) = (word_of_nat 6 :: 8 word)" by simp
  then show "x = 6" by simp
next
  assume "x = 6"
  then show "unat x = 6" by simp
qed

text \<open>
  C3. In every reachable state at most 6 slots of \<open>usbKeys\<close> are occupied, all 6 are
  occupied exactly when \<open>keysUsed\<close> is 6, and then \<open>setKey\<close> returns false and changes
  nothing: slots, \<open>keysUsed\<close>, \<open>modifiers\<close>, the key registers and every other global
  stay as they are.
\<close>
theorem report_buffer_capacity:
  assumes "reachable P L s"
  shows "occupied (usbKeys s) \<le> 6
    \<and> (occupied (usbKeys s) = 6 \<longleftrightarrow> keysUsed s = 6)
    \<and> (keysUsed s = 6 \<longrightarrow> setKey P L keyId keyCode s = (False, s))"
proof -
  have inv: "slots_ok s" by (rule reachable_slots_ok [OF assms])
  then have "occupied (usbKeys s) \<le> 6" using occupied_le [of "usbKeys s"] by (simp add: slots_ok_def)
  moreover have "occupied (usbKeys s) = 6 \<longleftrightarrow> keysUsed s = 6"
    using inv unat_byte_6 [of "keysUsed s"] by (simp add: slots_ok_def)
  ultimately show ?thesis by (simp add: setKey_full)
qed

text \<open>
  C10. In every state reached from the initial one by calls of \<open>setKey\<close> and
  \<open>checkRelease\<close> on keys of the matrix (and by the other steps of the engine),
  \<open>keysUsed\<close> is the number of slots of \<open>usbKeys\<close> that are not -1. Hence a call of
  \<open>setKey\<close> that changes \<open>keysUsed\<close> increments it from a value below 6, and a call of
  \<open>checkRelease\<close> that changes it decrements it from a positive value.
\<close>
theorem keysUsed_counts_occupied_slots:
  assumes "reachable P L s" and "matrix_key L keyId"
  shows "unat (keysUsed s) = occupied (usbKeys s)
    \<and> (keysUsed (snd (setKey P L keyId keyCode s)) \<noteq> keysUsed s \<longrightarrow>
          unat (keysUsed s) < 6 \<and> keysUsed (snd (setKey P L keyId keyCode s)) = keysUsed s + 1)
    \<and> (keysUsed (checkRelease P L keyId s) \<noteq> keysUsed s \<longrightarrow>
          0 < unat (keysUsed s) \<and> keysUsed (checkRelease P L keyId s) = keysUsed s - 1)"
proof -
  have inv: "slots_ok s" by (rule reachable_slots_ok [OF assms(1)])
  have small: "unat keyId < 128" by (rule matrix_key_small [OF assms(2)])
  have count: "unat (keysUsed s) = occupied (usbKeys s)" using inv by (simp add: slots_ok_def)
  have up: "unat (keysUsed s) < 6 \<and> keysUsed (snd (setKey P L keyId keyCode s)) = keysUsed s + 1"
    if "keysUsed (snd (setKey P L keyId keyCode s)) \<noteq> keysUsed s"
  proof -
    from that setKey_keysUsed [of P L keyId keyCode s]
    obtain n where inc: "keysUsed (snd (setKey P L keyId keyCode s)) = keysUsed s + 1"
      and n: "free_slot (usbKeys s) = Some n" by auto
    from free_slot_occupied [OF n] inv count have "unat (keysUsed s) < 6" by (simp add: slots_ok_def)
    with inc show ?thesis by simp
  qed
  have down: "0 < unat (keysUsed s) \<and> keysUsed (checkRelease P L keyId s) = keysUsed s - 1"
    if "keysUsed (checkRelease P L keyId s) \<noteq> keysUsed s"
  proof -
    from that checkRelease_keysUsed [of P L keyId s]
    obtain n where dec: "keysUsed (checkRelease P L keyId s) = keysUsed s - 1"
      and n: "key_slot keyId (usbKeys s) = Some n" by auto
    from key_slot_Some_nth [OF small n] small_not_minus1 [OF small]
    have "n < length (usbKeys s)" "usbKeys s ! n \<noteq> - 1" by simp_all
    then have "0 < occupied (usbKeys s)" by (rule held_slot_occupied)
    with count dec show ?thesis by simp
  qed
  from count up down show ?thesis by blast
qed

lemma matrix_key_PET: "matrix_key (PET P) keyId \<longleftrightarrow> unat keyId < 80"
  by (auto simp: matrix_key_def PET_def)

lemma six_presses_ok: "list_all (call_ok (PET P)) six_presses"
  by (simp add: six_presses_def matrix_key_PET list_all_iff)

lemma six_presses_run:
  "usbKeys (run P L six_presses initial) = [1, 2, 3, 4, 5, 8] \<and> keysUsed (run P L six_presses initial) = 6"
  by code_simp

text \<open>
  The capacity theorem at a state with all six slots taken: the keys 1, 2, 3, 4, 5 and 8,
  each admitted at its third call of \<open>setKey\<close>; a seventh key, 9, is rejected.
\<close>

theorem report_buffer_capacity_witness:
  "reachable teensy (PET teensy) (run teensy (PET teensy) six_presses initial)
   \<and> occupied (usbKeys (run teensy (PET teensy) six_presses initial)) = 6
   \<and> keysUsed (run teensy (PET teensy) six_presses initial) = 6
   \<and> setKey teensy (PET teensy) 9 0 (run teensy (PET teensy) six_presses initial)
       = (False, run teensy (PET teensy) six_presses initial)"
proof -
  have r: "reachable teensy (PET teensy) (run teensy (PET teensy) six_presses initial)"
    by (rule reachable_run [OF reachable.start six_presses_ok])
  have k: "keysUsed (run teensy (PET teensy) six_presses initial) = 6"
    using six_presses_run [of teensy "PET teensy"] by simp
  from report_buffer_capacity [OF r, of 9 0] k r show ?thesis by simp
qed

lemma two_presses_run:
  "keysUsed (run P L [SetKey 1 0, SetKey 1 0] initial) = 0
   \<and> keysUsed (snd (setKey P L 1 0 (run P L [SetKey 1 0, SetKey 1 0] initial))) = 1"
  by code_simp

lemma release_run:
  "keysUsed (run P L [SetKey 1 0, SetKey 1 0, SetKey 1 0, SetKey 2 0, CheckRelease 1, CheckRelease 1] initial) = 1
   \<and> keysUsed (checkRelease P L 1
        (run P L [SetKey 1 0, SetKey 1 0, SetKey 1 0, SetKey 2 0, CheckRelease 1, CheckRelease 1] initial)) = 0"
  by code_simp

text \<open>
  The counter theorem at two states: one where the next \<open>setKey\<close> of key 1 takes a slot,
  and one where the next \<open>checkRelease\<close> of key 1 frees its slot.
\<close>

theorem keysUsed_counts_occupied_slots_witness:
  "reachable teensy (PET teensy) (run teensy (PET teensy) [SetKey 1 0, SetKey 1 0] initial)
   \<and> matrix_key (PET teensy) 1
   \<and> keysUsed (snd (setKey teensy (PET teensy) 1 0 (run teensy (PET teensy) [SetKey 1 0, SetKey 1 0] initial)))
       \<noteq> keysUsed (run teensy (PET teensy) [SetKey 1 0, SetKey 1 0] initial)
   \<and> unat (keysUsed (run teensy (PET teensy) [SetKey 1 0, SetKey 1 0] initial)) < 6
   \<and> reachable teensy (PET teensy)
        (run teensy (PET teensy)
          [SetKey 1 0, SetKey 1 0, SetKey 1 0, SetKey 2 0, CheckRelease 1, CheckRelease 1] initial)
   \<and> keysUsed (checkRelease teensy (PET teensy) 1
        (run teensy (PET teensy)
          [SetKey 1 0, SetKey 1 0, SetKey 1 0, SetKey 2 0, CheckRelease 1, CheckRelease 1] initial))
       \<noteq> keysUsed (run teensy (PET teensy)
          [SetKey 1 0, SetKey 1 0, SetKey 1 0, SetKey 2 0, CheckRelease 1, CheckRelease 1] initial)
   \<and> 0 < unat (keysUsed (run teensy (PET teensy)
          [SetKey 1 0, SetKey 1 0, SetKey 1 0, SetKey 2 0, CheckRelease 1, CheckRelease 1] initial))"
proof -
  let ?a = "run teensy (PET teensy) [SetKey 1 0, SetKey 1 0] initial"
  let ?b = "run teensy (PET teensy)
          [SetKey 1 0, SetKey 1 0, SetKey 1 0, SetKey 2 0, CheckRelease 1, CheckRelease 1] initial"
  have m: "matrix_key (PET teensy) 1" by (simp add: matrix_key_PET)
  have ra: "reachable teensy (PET teensy) ?a"
    by (rule reachable_run [OF reachable.start]) (simp add: matrix_key_PET)
  have rb: "reachable teensy (PET teensy) ?b"
    by (rule reachable_run [OF reachable.start]) (simp add: matrix_key_PET)
  have ca: "keysUsed (snd (setKey teensy (PET teensy) 1 0 ?a)) \<noteq> keysUsed ?a"
    using two_presses_run [of teensy "PET teensy"] by simp
  have cb: "keysUsed (checkRelease teensy (PET teensy) 1 ?b) \<noteq> keysUsed ?b"
    using release_run [of teensy "PET teensy"] by simp
  from keysUsed_counts_occupied_slots [OF ra m, of 0] keysUsed_counts_occupied_slots [OF rb m, of 0]
    m ra rb ca cb
  show ?thesis by blast
qed

lemma distinct_filter_nth:
  "distinct (filter Q xs) \<Longrightarrow> i < length xs \<Longrightarrow> j < length xs \<Longrightarrow> xs ! i = xs ! j \<Longrightarrow> Q (xs ! i) \<Longrightarrow> i = j"
proof (induction xs arbitrary: i j)
  case Nil
  then show ?case by simp
next
  case (Cons a xs)
  show ?case
  proof (cases i; cases j)
    fix i' j' assume "i = Suc i'" "j = Suc j'"
    with Cons.prems Cons.IH [of i' j'] show ?thesis by (auto split: if_splits)
  next
    fix j' assume "i = 0" "j = Suc j'"
    with Cons.prems show ?thesis by (auto split: if_splits)
  next
    fix i' assume "i = Suc i'" "j = 0"
    with Cons.prems show ?thesis by (auto split: if_splits)
  qed simp
qed

lemma setKey_held:
  assumes "key_slot keyId (usbKeys s) = Some n" and "keysUsed s \<noteq> 6"
  shows "setKey P L keyId keyCode s
           = (\<not> fst (debounce_call P keyId s),
              s\<lparr>debounceKeys := snd (debounce keyId (debounceKeys s))\<rparr>)"
proof -
  obtain d s1 where dc: "debounce_call P keyId s = (d, s1)" by (cases "debounce_call P keyId s")
  have s1: "s1 = s\<lparr>debounceKeys := snd (debounce keyId (debounceKeys s))\<rparr>"
    by (rule debounce_call_state [OF dc])
  show ?thesis using assms by (simp add: setKey_def dc s1)
qed

text \<open>
  C8. \<open>setKey\<close> on a key of the matrix that already occupies a slot, in a reachable state
  with fewer than 6 occupied slots. The debounce gate comes first: the call returns true
  when the gate admits and false when it suppresses. In both cases no second slot is
  allocated and \<open>usbKeys\<close>, \<open>keysUsed\<close>, \<open>modifiers\<close>, \<open>keyStateChange\<close> and the key
  registers are unchanged; only the debounce table moves. The key is in no other slot.
\<close>
theorem setKey_on_held_key:
  assumes "reachable P L s" and "matrix_key L keyId"
    and "key_slot keyId (usbKeys s) = Some n" and "keysUsed s \<noteq> 6"
  shows "setKey P L keyId keyCode s
           = (\<not> fst (debounce_call P keyId s),
              s\<lparr>debounceKeys := snd (debounce keyId (debounceKeys s))\<rparr>)
    \<and> (\<forall>m<6. usbKeys s ! m = keyId \<longrightarrow> m = n)"
proof -
  have inv: "slots_ok s" by (rule reachable_slots_ok [OF assms(1)])
  have small: "unat keyId < 128" by (rule matrix_key_small [OF assms(2)])
  have n: "n < length (usbKeys s)" "usbKeys s ! n = keyId"
    using key_slot_Some_nth [OF small assms(3)] by simp_all
  have ne: "keyId \<noteq> - 1" by (rule small_not_minus1 [OF small])
  have "m = n" if "m < 6" "usbKeys s ! m = keyId" for m
  proof (rule distinct_filter_nth [where Q = "\<lambda>u. u \<noteq> - 1" and xs = "usbKeys s"])
    show "distinct (filter (\<lambda>u. u \<noteq> - 1) (usbKeys s))"
      using inv by (simp add: slots_ok_def no_double_def)
    show "m < length (usbKeys s)" using that inv by (simp add: slots_ok_def)
    show "n < length (usbKeys s)" by (rule n(1))
    show "usbKeys s ! m = usbKeys s ! n" using that n by simp
    show "usbKeys s ! m \<noteq> - 1" using that ne by simp
  qed
  with setKey_held [OF assms(3,4)] show ?thesis by blast
qed

lemma held_key_run:
  "key_slot 1 (usbKeys (run P L [SetKey 1 0, SetKey 1 0, SetKey 1 0] initial)) = Some 0
   \<and> keysUsed (run P L [SetKey 1 0, SetKey 1 0, SetKey 1 0] initial) = 1
   \<and> usbKeys (run P L [SetKey 1 0, SetKey 1 0, SetKey 1 0] initial) = [1, - 1, - 1, - 1, - 1, - 1]
   \<and> occupied (usbKeys (run P L [SetKey 1 0, SetKey 1 0, SetKey 1 0] initial)) = 1
   \<and> fst (setKey P L 1 0 (run P L [SetKey 1 0, SetKey 1 0, SetKey 1 0] initial)) = False"
  by code_simp

text \<open>
  Key 1 occupies slot 0 after its third call of \<open>setKey\<close>; the fourth call finds its
  debounce entry idle, is suppressed, and returns false.
\<close>

theorem setKey_on_held_key_counterexample:
  "key_slot 1 (usbKeys (run teensy (PET teensy) [SetKey 1 0, SetKey 1 0, SetKey 1 0] initial)) = Some 0
   \<and> keysUsed (run teensy (PET teensy) [SetKey 1 0, SetKey 1 0, SetKey 1 0] initial) = 1
   \<and> occupied (usbKeys (run teensy (PET teensy) [SetKey 1 0, SetKey 1 0, SetKey 1 0] initial)) = 1
   \<and> fst (setKey teensy (PET teensy) 1 0
            (run teensy (PET teensy) [SetKey 1 0, SetKey 1 0, SetKey 1 0] initial)) = False"
  using held_key_run [of teensy "PET teensy"] by blast

theorem setKey_on_held_key_witness:
  "reachable teensy (PET teensy) (run teensy (PET teensy) [SetKey 1 0, SetKey 1 0, SetKey 1 0] initial)
   \<and> matrix_key (PET teensy) 1
   \<and> key_slot 1 (usbKeys (run teensy (PET teensy) [SetKey 1 0, SetKey 1 0, SetKey 1 0] initial)) = Some 0
   \<and> keysUsed (run teensy (PET teensy) [SetKey 1 0, SetKey 1 0, SetKey 1 0] initial) \<noteq> 6
   \<and> snd (setKey teensy (PET teensy) 1 0
            (run teensy (PET teensy) [SetKey 1 0, SetKey 1 0, SetKey 1 0] initial))
       = (run teensy (PET teensy) [SetKey 1 0, SetKey 1 0, SetKey 1 0] initial)
           \<lparr>debounceKeys := snd (debounce 1 (debounceKeys
               (run teensy (PET teensy) [SetKey 1 0, SetKey 1 0, SetKey 1 0] initial)))\<rparr>
   \<and> usbKeys (run teensy (PET teensy) [SetKey 1 0, SetKey 1 0, SetKey 1 0] initial)
       = [1, - 1, - 1, - 1, - 1, - 1]"
proof -
  let ?s = "run teensy (PET teensy) [SetKey 1 0, SetKey 1 0, SetKey 1 0] initial"
  have m: "matrix_key (PET teensy) 1" by (simp add: matrix_key_PET)
  have r: "reachable teensy (PET teensy) ?s"
    by (rule reachable_run [OF reachable.start]) (simp add: matrix_key_PET)
  have k: "key_slot 1 (usbKeys ?s) = Some 0" and u: "keysUsed ?s \<noteq> 6"
    using held_key_run [of teensy "PET teensy"] by simp_all
  have l: "usbKeys ?s = [1, - 1, - 1, - 1, - 1, - 1]"
    using held_key_run [of teensy "PET teensy"] by blast
  from setKey_on_held_key [OF r m k u, of 0] m r k u l show ?thesis by simp
qed

section \<open>Reports per scan cycle\<close>




























section \<open>The missing break of the CBM 64 sketch\<close>

lemma setKey_CBM_latches:
  "lShift (snd (setKey_CBM P keyId keyCode s)) = lShift s
   \<and> rShift (snd (setKey_CBM P keyId keyCode s)) = rShift s"
proof -
  obtain d s1 where dc: "debounce_call P keyId s = (d, s1)" by (cases "debounce_call P keyId s")
  have s1: "s1 = s\<lparr>debounceKeys := snd (debounce keyId (debounceKeys s))\<rparr>"
    by (rule debounce_call_state [OF dc])
  show ?thesis
    by (simp add: setKey_CBM_def dc s1 Let_def split: option.splits)
qed

lemma setKey_CBM_held:
  assumes "key_slot keyId (usbKeys x) \<noteq> None"
  shows "usbKeys (snd (setKey_CBM P keyId keyCode x)) = usbKeys x
    \<and> key_regs (snd (setKey_CBM P keyId keyCode x)) = key_regs x
    \<and> keysUsed (snd (setKey_CBM P keyId keyCode x)) = keysUsed x
    \<and> modifiers (snd (setKey_CBM P keyId keyCode x)) = modifiers x"
proof -
  obtain d s1 where dc: "debounce_call P keyId x = (d, s1)" by (cases "debounce_call P keyId x")
  have s1: "s1 = x\<lparr>debounceKeys := snd (debounce keyId (debounceKeys x))\<rparr>"
    by (rule debounce_call_state [OF dc])
  show ?thesis using assms by (auto simp: setKey_CBM_def dc s1)
qed

lemma pointer_up_backslash_run:
  "key_regs (snd (parseSpecial_CBM P 60 LOW (snd (parseSpecial_CBM P 60 LOW initial))))
     = [if keycode P ''KEY_BACKSLASH'' \<noteq> 0 then keycode P ''KEY_BACKSLASH''
        else KEY_CODES_CBM P ! unat (60 :: 8 word), 0, 0, 0, 0, 0]
   \<and> usbKeys (snd (parseSpecial_CBM P 60 LOW (snd (parseSpecial_CBM P 60 LOW initial))))
     = [60, - 1, - 1, - 1, - 1, - 1]
   \<and> key_slot 60 (usbKeys (snd (setKey_CBM P 60 (keycode P ''KEY_BACKSLASH'')
        (snd (parseSpecial_CBM P 60 LOW initial))))) = Some 0
   \<and> key_regs (snd (parseSpecial_CBM P 60 LOW initial)) = [0, 0, 0, 0, 0, 0]"
  by code_simp

lemma teensy_pointer_up_codes:
  "keycode teensy ''KEY_BACKSLASH'' = 0xF031"
  "keycode teensy ''KEY_HOME'' = 0xF04A"
  "keycode teensy ''KEY_END'' = 0xF04D"
  by code_simp+

text \<open>
  C9. In the CBM 64 sketch every call of \<open>parseSpecial\<close> with keyId 60 (pointer up) runs
  the statements of case 60 and then those of case 69 (clr/home), with the keyId 60:
  a press calls \<open>setKey(60, KEY_BACKSLASH)\<close> and then \<open>setKey(60, KEY_END)\<close> or
  \<open>setKey(60, KEY_HOME)\<close>, chosen by the Shift latches; a release calls
  \<open>checkRelease(60)\<close> twice. The second call of \<open>setKey\<close> is a call, not an
  installation: whenever key 60 occupies a slot after the first call, the second call changes
  no slot, no key register, not the slot count and not the modifiers.
\<close>
theorem pointer_up_falls_through:
  "parseSpecial_CBM P 60 LOW s =
     (True, snd (setKey_CBM P 60
                   (if lShift s \<or> rShift s then keycode P ''KEY_END'' else keycode P ''KEY_HOME'')
                   (snd (setKey_CBM P 60 (keycode P ''KEY_BACKSLASH'') s))))
   \<and> parseSpecial_CBM P 60 HIGH s = (True, checkRelease_CBM P 60 (checkRelease_CBM P 60 s))
   \<and> (key_slot 60 (usbKeys (snd (setKey_CBM P 60 (keycode P ''KEY_BACKSLASH'') s))) \<noteq> None \<longrightarrow>
        usbKeys (snd (parseSpecial_CBM P 60 LOW s))
          = usbKeys (snd (setKey_CBM P 60 (keycode P ''KEY_BACKSLASH'') s))
        \<and> key_regs (snd (parseSpecial_CBM P 60 LOW s))
          = key_regs (snd (setKey_CBM P 60 (keycode P ''KEY_BACKSLASH'') s))
        \<and> keysUsed (snd (parseSpecial_CBM P 60 LOW s))
          = keysUsed (snd (setKey_CBM P 60 (keycode P ''KEY_BACKSLASH'') s))
        \<and> modifiers (snd (parseSpecial_CBM P 60 LOW s))
          = modifiers (snd (setKey_CBM P 60 (keycode P ''KEY_BACKSLASH'') s)))"
proof -
  have a: "parseSpecial_CBM P 60 LOW s =
     (True, snd (setKey_CBM P 60
                   (if lShift s \<or> rShift s then keycode P ''KEY_END'' else keycode P ''KEY_HOME'')
                   (snd (setKey_CBM P 60 (keycode P ''KEY_BACKSLASH'') s))))"
    using setKey_CBM_latches [of P 60 "keycode P ''KEY_BACKSLASH''" s]
    by (simp add: parseSpecial_CBM_def plain_key_def shifted_key_def)
  have b: "parseSpecial_CBM P 60 HIGH s = (True, checkRelease_CBM P 60 (checkRelease_CBM P 60 s))"
    by (simp add: parseSpecial_CBM_def plain_key_def shifted_key_def)
  have c: "usbKeys (snd (parseSpecial_CBM P 60 LOW s))
          = usbKeys (snd (setKey_CBM P 60 (keycode P ''KEY_BACKSLASH'') s))
        \<and> key_regs (snd (parseSpecial_CBM P 60 LOW s))
          = key_regs (snd (setKey_CBM P 60 (keycode P ''KEY_BACKSLASH'') s))
        \<and> keysUsed (snd (parseSpecial_CBM P 60 LOW s))
          = keysUsed (snd (setKey_CBM P 60 (keycode P ''KEY_BACKSLASH'') s))
        \<and> modifiers (snd (parseSpecial_CBM P 60 LOW s))
          = modifiers (snd (setKey_CBM P 60 (keycode P ''KEY_BACKSLASH'') s))"
    if "key_slot 60 (usbKeys (snd (setKey_CBM P 60 (keycode P ''KEY_BACKSLASH'') s))) \<noteq> None"
    using setKey_CBM_held [OF that, of P
        "if lShift s \<or> rShift s then keycode P ''KEY_END'' else keycode P ''KEY_HOME''"]
    unfolding a by simp
  from a b c show ?thesis by blast
qed

text \<open>
  Two presses of pointer up after power-on: the first installs nothing, the second installs
  \<open>KEY_BACKSLASH\<close> alone; neither \<open>KEY_HOME\<close> nor \<open>KEY_END\<close> is in a key register.
\<close>
theorem pointer_up_falls_through_counterexample:
  "key_regs (snd (parseSpecial_CBM teensy 60 LOW initial)) = [0, 0, 0, 0, 0, 0]
   \<and> key_regs (snd (parseSpecial_CBM teensy 60 LOW (snd (parseSpecial_CBM teensy 60 LOW initial))))
       = [keycode teensy ''KEY_BACKSLASH'', 0, 0, 0, 0, 0]
   \<and> keycode teensy ''KEY_BACKSLASH'' \<noteq> keycode teensy ''KEY_HOME''
   \<and> keycode teensy ''KEY_BACKSLASH'' \<noteq> keycode teensy ''KEY_END''
   \<and> keycode teensy ''KEY_HOME'' \<noteq> 0
   \<and> keycode teensy ''KEY_END'' \<noteq> 0"
  using pointer_up_backslash_run [of teensy] by (simp add: teensy_pointer_up_codes)

text \<open>
  The second press of pointer up after power-on: the first call of \<open>setKey\<close> puts key 60
  in slot 0, and the fall-through call leaves slots and key registers as they are.
\<close>
theorem pointer_up_falls_through_witness:
  "key_slot 60 (usbKeys (snd (setKey_CBM teensy 60 (keycode teensy ''KEY_BACKSLASH'')
        (snd (parseSpecial_CBM teensy 60 LOW initial))))) = Some 0
   \<and> usbKeys (snd (parseSpecial_CBM teensy 60 LOW (snd (parseSpecial_CBM teensy 60 LOW initial))))
       = usbKeys (snd (setKey_CBM teensy 60 (keycode teensy ''KEY_BACKSLASH'')
           (snd (parseSpecial_CBM teensy 60 LOW initial))))
   \<and> key_regs (snd (parseSpecial_CBM teensy 60 LOW (snd (parseSpecial_CBM teensy 60 LOW initial))))
       = key_regs (snd (setKey_CBM teensy 60 (keycode teensy ''KEY_BACKSLASH'')
           (snd (parseSpecial_CBM teensy 60 LOW initial))))
   \<and> key_regs (snd (parseSpecial_CBM teensy 60 LOW (snd (parseSpecial_CBM teensy 60 LOW initial))))
       = [keycode teensy ''KEY_BACKSLASH'', 0, 0, 0, 0, 0]"
proof -
  let ?s = "snd (parseSpecial_CBM teensy 60 LOW initial)"
  note run = pointer_up_backslash_run [of teensy]
  have k: "key_slot 60 (usbKeys (snd (setKey_CBM teensy 60 (keycode teensy ''KEY_BACKSLASH'') ?s))) = Some 0"
    using run by blast
  then have h: "key_slot 60 (usbKeys (snd (setKey_CBM teensy 60 (keycode teensy ''KEY_BACKSLASH'') ?s))) \<noteq> None"
    by simp
  have r: "key_regs (snd (parseSpecial_CBM teensy 60 LOW ?s)) = [keycode teensy ''KEY_BACKSLASH'', 0, 0, 0, 0, 0]"
    using run by (simp add: teensy_pointer_up_codes)
  from pointer_up_falls_through [of teensy ?s, THEN conjunct2, THEN conjunct2, THEN mp, OF h] k r
  show ?thesis by simp
qed

section \<open>The Alt combinations of the VICE sketch\<close>































section \<open>A key press and release through the scan loop\<close>



























lemma at_rest_slots:
  "at_rest s \<Longrightarrow> (\<forall>u\<in>set (usbKeys s). u = - 1 \<or> u = 0) \<and> keysUsed s \<noteq> 6"
  by (simp add: at_rest_def)

lemma key_0_held_slots:
  "key_0_held P s \<Longrightarrow> (\<forall>u\<in>set (usbKeys s). u = - 1 \<or> u = 0) \<and> keysUsed s \<noteq> 6"
  by (simp add: key_0_held_def)






section \<open>Idle cycles after power-on\<close>













section \<open>Key 0 held down: evaluation\<close>







end
